theory Spec2Isabelle
  imports Main "HOL-Library.Finite_Map"
begin

section \<open>JavaScript values the replicator relies on\<close>

text \<open>
  A plain JavaScript object with string keys is an association list in the order in
  which \<^verbatim>\<open>for (k in obj)\<close> enumerates it: keys that are array indices
  (canonical decimal numerals below \<open>2^32 - 1\<close>) first, in ascending numeric order, then
  all other keys in insertion order. Assigning to an existing key keeps its position.
\<close>

type_synonym 'a obj = "(string \<times> 'a) list"

definition is_digit :: "char \<Rightarrow> bool" where
  "is_digit c = (c \<in> set ''0123456789'')"

definition digits_value :: "string \<Rightarrow> nat" where
  "digits_value s = fold (\<lambda>c n. 10 * n + (of_char c - 48)) s 0"

definition array_index :: "string \<Rightarrow> nat option" where
  "array_index k =
     (if k \<noteq> [] \<and> list_all is_digit k \<and> (k = ''0'' \<or> hd k \<noteq> CHR ''0'')
         \<and> digits_value k < 4294967295
      then Some (digits_value k) else None)"

text \<open>
  The objects of the registry are created as \<^verbatim>\<open>{}\<close>, so a lookup of a key that
  the object does not own yields what \<^verbatim>\<open>Object.prototype\<close> has under that name,
  which is \<^verbatim>\<open>undefined\<close> except for the names below. \<open>obj_get\<close> looks up own
  keys only; where the replicator uses the value of a lookup, the inherited names are
  dealt with at that place.
\<close>

definition object_prototype_names :: "string list" where
  "object_prototype_names =
     [''constructor'', ''hasOwnProperty'', ''isPrototypeOf'', ''propertyIsEnumerable'',
      ''toLocaleString'', ''toString'', ''valueOf'', ''__proto__'', ''__defineGetter__'',
      ''__defineSetter__'', ''__lookupGetter__'', ''__lookupSetter__'']"

definition inherited :: "string \<Rightarrow> bool" where
  "inherited k = (k \<in> set object_prototype_names)"

definition obj_get :: "'a obj \<Rightarrow> string \<Rightarrow> 'a option" where
  "obj_get obj k = map_of obj k"

definition obj_delete :: "string \<Rightarrow> 'a obj \<Rightarrow> 'a obj" where
  "obj_delete k obj = filter (\<lambda>p. fst p \<noteq> k) obj"

text \<open>Position of a new key: before the first key that enumerates after it.\<close>

fun obj_insert_new :: "string \<Rightarrow> 'a \<Rightarrow> 'a obj \<Rightarrow> 'a obj" where
  "obj_insert_new k v [] = [(k, v)]"
| "obj_insert_new k v (p # ps) =
     (case array_index k of
        None \<Rightarrow> p # obj_insert_new k v ps
      | Some n \<Rightarrow>
          (case array_index (fst p) of
             None \<Rightarrow> (k, v) # p # ps
           | Some m \<Rightarrow> if n < m then (k, v) # p # ps else p # obj_insert_new k v ps))"

definition obj_set :: "string \<Rightarrow> 'a \<Rightarrow> 'a obj \<Rightarrow> 'a obj" where
  "obj_set k v obj =
     (if k \<in> fst ` set obj
      then map (\<lambda>p. if fst p = k then (k, v) else p) obj
      else obj_insert_new k v obj)"

text \<open>
  A property key is a string: \<^verbatim>\<open>obj[undefined]\<close> reads, writes and deletes the
  key \<^verbatim>\<open>"undefined"\<close>.
\<close>

definition prop_key :: "string option \<Rightarrow> string" where
  "prop_key k = (case k of None \<Rightarrow> ''undefined'' | Some s \<Rightarrow> s)"

text \<open>Truthiness of a value that is either \<^verbatim>\<open>undefined\<close> or a string.\<close>

definition truthy :: "string option \<Rightarrow> bool" where
  "truthy v = (case v of None \<Rightarrow> False | Some s \<Rightarrow> s \<noteq> [])"

text \<open>
  \<^verbatim>\<open>Array.prototype.indexOf\<close>: the first position of the element, or \<open>-1\<close>.
\<close>

fun indexOf :: "'a list \<Rightarrow> 'a \<Rightarrow> int" where
  "indexOf [] x = -1"
| "indexOf (y # ys) x =
     (if y = x then 0 else (let i = indexOf ys x in if i < 0 then -1 else i + 1))"

text \<open>
  \<^verbatim>\<open>Array.prototype.splice(start, 1)\<close>: a negative start counts from the end, the
  start is clamped to the array, and at most one element is removed.
\<close>

definition splice1 :: "int \<Rightarrow> 'a list \<Rightarrow> 'a list" where
  "splice1 start xs =
     (let len = int (length xs);
          actualStart = (if start < 0 then max (len + start) 0 else min start len)
      in take (nat actualStart) xs @ drop (nat actualStart + 1) xs)"

text \<open>
  The integer that \<^verbatim>\<open>splice\<close> makes of a string passed as its start: the empty
  string is \<open>0\<close>, a string of decimal digits is its value, and a string that is no
  numeric literal is \<^verbatim>\<open>NaN\<close>, hence \<open>0\<close>. The other numeric literals of
  JavaScript (a sign, a fraction, an exponent, a radix prefix, surrounding white space,
  \<^verbatim>\<open>Infinity\<close>) are not interpreted here: at a string of such a shape the start
  that JavaScript computes is another one. The function is used at the document ids
  \<open>rep1\<close> and \<open>1\<close> below.
\<close>

definition ToIntegerOrInfinity :: "string \<Rightarrow> int" where
  "ToIntegerOrInfinity s =
     (if s \<noteq> [] \<and> list_all is_digit s then int (digits_value s) else 0)"

section \<open>Replication documents and signatures\<close>

text \<open>
  A document of the replicator database. The fields the replicator reads or writes are
  named; \<open>options\<close> holds every other field, as a finite map, so that the order of
  the fields plays no role. A field that is absent is \<open>None\<close>.
  The record without \<^verbatim>\<open>_id\<close> and \<^verbatim>\<open>_rev\<close> is the signature, so
  \<^verbatim>\<open>equals\<close> on two signatures is equality of the records.
\<close>

record 'v signature =
  deleted :: "bool option"
  source :: "'v option"
  target :: "'v option"
  options :: "(string, 'v) fmap"
  replication_id :: "string option"
  replication_state :: "string option"
  replication_state_time :: "nat option"
  replication_state_reason :: "string option"
  replication_stats :: "(string, 'v) fmap option"

record 'v document = "'v signature" +
  doc_id :: string
  doc_rev :: "string option"

text \<open>
  \<^verbatim>\<open>currentSignature = extend({}, doc); delete currentSignature._id;
  delete currentSignature._rev\<close>
\<close>

definition signature_of :: "'v document \<Rightarrow> 'v signature" where
  "signature_of doc = signature.truncate doc"

section \<open>The registry of one database and its collaborators\<close>

type_synonym handle = nat

text \<open>The listeners the replicator binds to an event emitter.\<close>

datatype listener =
    onReplicationComplete_for string
  | onReplicationError_for string
  | doneCancelling_for handle
  | onChange

text \<open>
  Calls made to the collaborators, in the order they are made. \<open>Throw\<close> records an
  exception that leaves the function that was running.
\<close>

datatype 'v effect =
    Cancel handle
  | Replicate handle "'v option" "'v option" "'v document"
  | Put "'v document" "string list"
  | Get string
  | UninstallValidationMethods
  | Throw string

text \<open>
  The registry entry \<^verbatim>\<open>dataFor(db)\<close> of one database is the record \<open>data\<close>.
  The world of that database adds the listeners attached to each event emitter, the
  next emitter that \<^verbatim>\<open>PouchDB.replicate\<close> creates, the calls made so far, and the
  two variables of the promise of \<^verbatim>\<open>stopReplicator\<close>: its counter and whether
  \<^verbatim>\<open>resolve\<close> has been called. The functions on worlds are those that run while
  the database is registered, that is, while \<^verbatim>\<open>dataFor(db)\<close> does not throw.
\<close>

record 'v data =
  changes :: "handle option"
  activeReplicationsById :: "handle obj"
  activeReplicationSignaturesByRepId :: "'v signature option obj"
  changedByReplicator :: "string list"

record 'v world = "'v data" +
  listeners :: "handle \<Rightarrow> (string \<times> listener) list"
  next_handle :: handle
  effects :: "'v effect list"
  stillCancellingCount :: int
  resolved :: bool

definition call :: "'v effect \<Rightarrow> 'v world \<Rightarrow> 'v world" where
  "call e w = w\<lparr>effects := effects w @ [e]\<rparr>"

definition on :: "handle \<Rightarrow> string \<Rightarrow> listener \<Rightarrow> 'v world \<Rightarrow> 'v world" where
  "on h event l w = w\<lparr>listeners := (listeners w)(h := listeners w h @ [(event, l)])\<rparr>"

definition removeAllListeners :: "handle \<Rightarrow> 'v world \<Rightarrow> 'v world" where
  "removeAllListeners h w = w\<lparr>listeners := (listeners w)(h := [])\<rparr>"

section \<open>Reconciliation\<close>

definition cleanupReplicationData :: "'v document \<Rightarrow> 'v world \<Rightarrow> 'v world" where
  "cleanupReplicationData doc w =
     w\<lparr>activeReplicationsById := obj_delete (doc_id doc) (activeReplicationsById w),
       activeReplicationSignaturesByRepId :=
         obj_delete (prop_key (replication_id doc)) (activeReplicationSignaturesByRepId w)\<rparr>"

text \<open>
  The first key, in enumeration order, whose value equals the searched signature;
  \<open>None\<close> is the \<^verbatim>\<open>undefined\<close> the function returns when the loop ends. A stored
  value can be \<^verbatim>\<open>undefined\<close> (\<open>None\<close>), which equals no signature. The test
  with \<^verbatim>\<open>hasOwnProperty\<close> holds of every key enumerated: the list holds own keys
  only. (It is a call of the method the map has under that name; the only value
  \<^verbatim>\<open>onChanged\<close> can store under that key is the inherited method itself.)
\<close>

fun getMatchingSignatureId :: "'v signature option obj \<Rightarrow> 'v signature \<Rightarrow> string option" where
  "getMatchingSignatureId [] searchedSignature = None"
| "getMatchingSignatureId ((repId, signature) # rest) searchedSignature =
     (if signature = Some searchedSignature then Some repId
      else getMatchingSignatureId rest searchedSignature)"

text \<open>
  The synchronous part of \<^verbatim>\<open>putAsReplicatorChange\<close>, up to and including the call
  of \<^verbatim>\<open>db.put\<close>; \<open>now\<close> is the value of \<^verbatim>\<open>Date.now()\<close>.
\<close>

definition replicator_roles :: "string list" where
  "replicator_roles = [''_replicator'', ''_admin'']"

definition putAsReplicatorChange :: "nat \<Rightarrow> 'v document \<Rightarrow> 'v world \<Rightarrow> 'v document \<times> 'v world" where
  "putAsReplicatorChange now doc w =
     (let doc1 = (if truthy (replication_state doc)
                  then doc\<lparr>replication_state_time := Some now\<rparr> else doc);
          w1 = w\<lparr>changedByReplicator := changedByReplicator w @ [doc_id doc1]\<rparr>
      in (doc1, call (Put doc1 replicator_roles) w1))"

text \<open>
  The rejection handler of \<^verbatim>\<open>putAsReplicatorChange\<close>: it runs when the put fails,
  and throws the error again after it.
\<close>

definition putAsReplicatorChange_catch :: "'v document \<Rightarrow> 'v world \<Rightarrow> 'v world" where
  "putAsReplicatorChange_catch doc w =
     (let idx = indexOf (changedByReplicator w) (doc_id doc)
      in w\<lparr>changedByReplicator := splice1 idx (changedByReplicator w)\<rparr>)"

definition is_design :: "string \<Rightarrow> bool" where
  "is_design i = (take 7 i = ''_design'')"

text \<open>
  \<^verbatim>\<open>PouchDB.replicate(doc.source, doc.target, doc)\<close> with the registration of the job
  and its two listeners (the body of the \<^verbatim>\<open>if\<close> on \<^verbatim>\<open>"triggered"\<close>).
\<close>

definition start_replication :: "'v document \<Rightarrow> 'v signature option \<Rightarrow> 'v world \<Rightarrow> 'v world" where
  "start_replication doc currentSignature w =
     (let replication = next_handle w;
          w1 = call (Replicate replication (source doc) (target doc) doc)
                 (w\<lparr>next_handle := Suc replication\<rparr>);
          w2 = w1\<lparr>activeReplicationsById :=
                    obj_set (doc_id doc) replication (activeReplicationsById w1),
                  activeReplicationSignaturesByRepId :=
                    obj_set (prop_key (replication_id doc)) currentSignature
                      (activeReplicationSignaturesByRepId w1)\<rparr>;
          w3 = on replication ''complete'' (onReplicationComplete_for (doc_id doc)) w2
      in on replication ''error'' (onReplicationError_for (doc_id doc)) w3)"

text \<open>
  \<^verbatim>\<open>onChanged(db, doc)\<close> on the registry of \<open>db\<close>. \<open>uuid\<close> is the value
  \<^verbatim>\<open>uuid()\<close> returns if it is called, \<open>now\<close> the value of \<^verbatim>\<open>Date.now()\<close>.
  The result is the document object as the function leaves it, and the world.
  The value looked up as \<^verbatim>\<open>oldReplication\<close> is the job the registry owns under the
  document id; for an id that is a name of \<^verbatim>\<open>Object.prototype\<close> and has no job, it
  is the inherited value, which has no method \<^verbatim>\<open>cancel\<close>: the call throws. The
  value looked up under the replication id is only used as a signature to register, and
  whatever is not a signature is \<open>None\<close> there.
\<close>

definition onChanged :: "string \<Rightarrow> nat \<Rightarrow> 'v document \<Rightarrow> 'v world \<Rightarrow> 'v document \<times> 'v world" where
  "onChanged uuid now doc w =
     (let isReplicatorChange = (doc_id doc \<in> set (changedByReplicator w));
          w1 = (if isReplicatorChange
                then w\<lparr>changedByReplicator :=
                         splice1 (ToIntegerOrInfinity (doc_id doc)) (changedByReplicator w)\<rparr>
                else w)
      in if isReplicatorChange \<or> is_design (doc_id doc) then (doc, w1)
         else if obj_get (activeReplicationsById w1) (doc_id doc) = None
                 \<and> inherited (doc_id doc)
         then (doc, call (Throw ''TypeError'') w1)
         else
           let docCopy = doc;
               w2 = (case obj_get (activeReplicationsById w1) (doc_id doc) of
                       Some oldReplication \<Rightarrow> call (Cancel oldReplication) w1
                     | None \<Rightarrow> w1);
               registered =
                 (if truthy (replication_id doc)
                  then (case obj_get (activeReplicationSignaturesByRepId w2)
                               (prop_key (replication_id doc)) of
                          Some s \<Rightarrow> s | None \<Rightarrow> None)
                  else None);
               w3 = cleanupReplicationData doc w2;
               (doc1, currentSignature) =
                 (if deleted doc \<noteq> Some True
                  then
                    let repId = getMatchingSignatureId
                                  (activeReplicationSignaturesByRepId w3) (signature_of doc)
                    in if truthy repId
                       then (doc\<lparr>replication_id := repId\<rparr>, Some (signature_of doc))
                       else (doc\<lparr>replication_id := Some uuid,
                                  replication_state := Some ''triggered''\<rparr>,
                             Some (signature_of doc))
                  else (doc, registered));
               w4 = (if replication_state doc1 = Some ''triggered''
                     then start_replication doc1 currentSignature w3 else w3)
           in if doc1 \<noteq> docCopy then putAsReplicatorChange now doc1 w4 else (doc1, w4))"

text \<open>
  The world after the first part of \<^verbatim>\<open>onChanged\<close>: the job registered for the
  document id, if any, is cancelled, and \<^verbatim>\<open>cleanupReplicationData\<close> has run.
\<close>

definition superseded :: "'v document \<Rightarrow> 'v world \<Rightarrow> 'v world" where
  "superseded doc w = cleanupReplicationData doc
     (case obj_get (activeReplicationsById w) (doc_id doc) of
        Some oldReplication \<Rightarrow> call (Cancel oldReplication) w
      | None \<Rightarrow> w)"

text \<open>
  How the registry holds signatures: a signature is registered under a replication id
  that is not empty and is not the one the signature itself carries (it is an id
  generated after the signature was taken, or the id of an equal signature found).
\<close>

definition fresh_keys :: "'v signature option obj \<Rightarrow> bool" where
  "fresh_keys obj = (\<forall>k s. (k, Some s) \<in> set obj \<longrightarrow> k \<noteq> [] \<and> k \<noteq> prop_key (replication_id s))"

section \<open>Completion and error of a replication\<close>

datatype error = Error (status: nat) (name: string) (message: string)

text \<open>
  One attempt of \<^verbatim>\<open>updateExistingDoc\<close> as the storage answers it: what
  \<^verbatim>\<open>db.get\<close> yields, the clock at the write-back, and what \<^verbatim>\<open>db.put\<close> yields.
\<close>

datatype 'v round =
  Round (get_result: "error + 'v document") (clock: nat) (put_result: "error + unit")

text \<open>
  How the promise chain of \<^verbatim>\<open>updateExistingDoc\<close> ends. The function does not return
  the chain, so a rejection is an error thrown out of the handler, not a value its
  caller receives. \<open>Pending\<close>: the storage has not answered (yet).
\<close>

datatype outcome = Pending | Fulfilled | Rejected error

text \<open>The callback of \<^verbatim>\<open>db.get(docId).then\<close>, up to the call of \<^verbatim>\<open>db.put\<close>.\<close>

definition updateExistingDoc_then ::
  "('v document \<Rightarrow> 'v document) \<Rightarrow> nat \<Rightarrow> 'v document \<Rightarrow> 'v world \<Rightarrow> 'v document \<times> 'v world" where
  "updateExistingDoc_then func now doc w =
     putAsReplicatorChange now (func doc) (cleanupReplicationData doc w)"

text \<open>
  \<^verbatim>\<open>updateExistingDoc(db, docId, func)\<close> against the answers of the storage, one
  round per attempt; the steps of one attempt run back to back. A put that fails runs
  the rejection handler of \<^verbatim>\<open>putAsReplicatorChange\<close>, then the one of
  \<^verbatim>\<open>updateExistingDoc\<close>: status 409 starts over, any other error is thrown again.
\<close>

fun updateExistingDoc ::
  "string \<Rightarrow> ('v document \<Rightarrow> 'v document) \<Rightarrow> 'v round list \<Rightarrow> 'v world \<Rightarrow> outcome \<times> 'v world" where
  "updateExistingDoc docId func [] w = (Pending, call (Get docId) w)"
| "updateExistingDoc docId func (r # rs) w =
     (case get_result r of
        Inl err \<Rightarrow> (Rejected err, call (Get docId) w)
      | Inr doc \<Rightarrow>
          (let (doc1, w1) = updateExistingDoc_then func (clock r) doc (call (Get docId) w)
           in case put_result r of
                Inr u \<Rightarrow> (Fulfilled, w1)
              | Inl err \<Rightarrow>
                  (let w2 = putAsReplicatorChange_catch doc1 w1
                   in if status err = 409 then updateExistingDoc docId func rs w2
                      else (Rejected err, w2))))"

text \<open>\<^verbatim>\<open>delete info.status; delete info.ok\<close>, then the update of the document.\<close>

definition onReplicationComplete ::
  "string \<Rightarrow> (string, 'v) fmap \<Rightarrow> 'v round list \<Rightarrow> 'v world \<Rightarrow> outcome \<times> 'v world" where
  "onReplicationComplete docId info rounds w =
     (let info1 = fmdrop ''ok'' (fmdrop ''status'' info)
      in updateExistingDoc docId
           (\<lambda>doc. doc\<lparr>replication_state := Some ''completed'',
                      replication_stats := Some info1\<rparr>) rounds w)"

definition onReplicationError ::
  "string \<Rightarrow> error \<Rightarrow> 'v round list \<Rightarrow> 'v world \<Rightarrow> outcome \<times> 'v world" where
  "onReplicationError docId info rounds w =
     updateExistingDoc docId
       (\<lambda>doc. doc\<lparr>replication_state := Some ''error'',
                  replication_state_reason := Some (message info)\<rparr>) rounds w"

section \<open>Event emitters\<close>

text \<open>A terminal notification of an emitter, with its argument.\<close>

datatype 'v notification = Complete "(string, 'v) fmap" | Failure error

definition event_of :: "'v notification \<Rightarrow> string" where
  "event_of n = (case n of Complete info \<Rightarrow> ''complete'' | Failure err \<Rightarrow> ''error'')"

text \<open>
  \<^verbatim>\<open>emitter.emit(event, ...)\<close>: the listeners attached for the event when the
  notification starts are called in the order they were attached.
\<close>

definition emit :: "(listener \<Rightarrow> 'v world \<Rightarrow> 'v world) \<Rightarrow> handle \<Rightarrow> string \<Rightarrow> 'v world \<Rightarrow> 'v world" where
  "emit invoke h event w =
     fold invoke (map snd (filter (\<lambda>p. fst p = event) (listeners w h))) w"

definition removeAllListeners_of :: "handle \<Rightarrow> string \<Rightarrow> 'v world \<Rightarrow> 'v world" where
  "removeAllListeners_of h event w =
     w\<lparr>listeners := (listeners w)(h := filter (\<lambda>p. fst p \<noteq> event) (listeners w h))\<rparr>"

section \<open>Stopping\<close>

text \<open>
  \<^verbatim>\<open>resolve()\<close> of the promise of \<^verbatim>\<open>stopReplicator\<close>, with the callback chained
  to it, which uninstalls the validation methods. Only the first call settles a promise.
\<close>

definition resolve :: "'v world \<Rightarrow> 'v world" where
  "resolve w = (if resolved w then w else call UninstallValidationMethods (w\<lparr>resolved := True\<rparr>))"

definition doneCancelling :: "handle \<Rightarrow> 'v world \<Rightarrow> 'v world" where
  "doneCancelling eventEmitter w =
     (let w1 = removeAllListeners eventEmitter w;
          w2 = w1\<lparr>stillCancellingCount := stillCancellingCount w1 - 1\<rparr>
      in if stillCancellingCount w2 = 0 then resolve w2 else w2)"

text \<open>
  The inner function \<^verbatim>\<open>cancel\<close>. The call of \<^verbatim>\<open>cancelable.cancel\<close> is deferred
  to the next tick; it is recorded where it is scheduled.
\<close>

definition cancel :: "handle \<Rightarrow> 'v world \<Rightarrow> 'v world" where
  "cancel cancelable w =
     (let w1 = on cancelable ''complete'' (doneCancelling_for cancelable) w;
          w2 = on cancelable ''error'' (doneCancelling_for cancelable) w1;
          w3 = call (Cancel cancelable) w2
      in w3\<lparr>stillCancellingCount := stillCancellingCount w3 + 1\<rparr>)"

text \<open>
  The executor of the promise of \<^verbatim>\<open>stopReplicator\<close>, on the registry entry it took
  before removing it. \<open>None\<close>: \<^verbatim>\<open>data.changes\<close> is \<^verbatim>\<open>undefined\<close> (the
  subscription of \<^verbatim>\<open>startReplicator\<close> has not been made), \<^verbatim>\<open>cancel\<close> throws and
  the promise is rejected. The loop over the jobs enumerates the own keys of the map.
\<close>

definition stopReplicator_executor :: "'v world \<Rightarrow> 'v world option" where
  "stopReplicator_executor w =
     (case changes w of
        None \<Rightarrow> None
      | Some ch \<Rightarrow>
          (let w0 = w\<lparr>stillCancellingCount := 0, resolved := False\<rparr>;
               w1 = cancel ch w0;
               w2 = removeAllListeners_of ch ''change'' w1
           in Some (fold (\<lambda>p. cancel (snd p)) (activeReplicationsById w2) w2)))"

text \<open>
  What a listener does when its emitter notifies. \<open>registered\<close> tells whether the
  database still has its registry entry: once \<^verbatim>\<open>stopReplicator\<close> has removed it,
  \<^verbatim>\<open>updateExistingDoc\<close> still calls \<^verbatim>\<open>db.get\<close>, and its callback then throws in
  \<^verbatim>\<open>dataFor\<close>. A listener is only called for the event it was attached to.
\<close>

definition invoke :: "bool \<Rightarrow> 'v notification \<Rightarrow> 'v round list \<Rightarrow> listener \<Rightarrow> 'v world \<Rightarrow> 'v world" where
  "invoke registered n rounds l w =
     (case l of
        doneCancelling_for h \<Rightarrow> doneCancelling h w
      | onReplicationComplete_for docId \<Rightarrow>
          (if registered
           then (case n of Complete info \<Rightarrow> snd (onReplicationComplete docId info rounds w)
                         | Failure err \<Rightarrow> w)
           else call (Get docId) w)
      | onReplicationError_for docId \<Rightarrow>
          (if registered
           then (case n of Failure err \<Rightarrow> snd (onReplicationError docId err rounds w)
                         | Complete info \<Rightarrow> w)
           else call (Get docId) w)
      | onChange \<Rightarrow> w)"

definition notify :: "bool \<Rightarrow> 'v round list \<Rightarrow> handle \<Rightarrow> 'v notification \<Rightarrow> 'v world \<Rightarrow> 'v world" where
  "notify registered rounds h n w = emit (invoke registered n rounds) h (event_of n) w"

text \<open>Terminal notifications arriving after \<^verbatim>\<open>stopReplicator\<close>, in order.\<close>

fun notify_all :: "(handle \<times> 'v notification) list \<Rightarrow> 'v world \<Rightarrow> 'v world" where
  "notify_all [] w = w"
| "notify_all (e # es) w = notify_all es (notify False [] (fst e) (snd e) w)"

text \<open>
  Notions for the analysis of a stop: how often \<^verbatim>\<open>uninstallValidationMethods\<close> has
  been called, how many \<^verbatim>\<open>doneCancelling\<close> listeners an emitter has for an event,
  whether every such listener is bound to the emitter it is attached to, and the
  invariant of a stop that cancelled the emitters \<open>hs\<close>, of which those in \<open>E\<close> have
  notified since.
\<close>

definition uninstalls :: "'v world \<Rightarrow> nat" where
  "uninstalls w = count_list (effects w) UninstallValidationMethods"

definition done_listeners :: "'v world \<Rightarrow> handle \<Rightarrow> string \<Rightarrow> nat" where
  "done_listeners w h event =
     length (filter (\<lambda>p. p = (event, doneCancelling_for h)) (listeners w h))"

definition own_done :: "'v world \<Rightarrow> bool" where
  "own_done w = (\<forall>h p. p \<in> set (listeners w h) \<longrightarrow>
      (\<forall>h'. snd p = doneCancelling_for h' \<longrightarrow> h' = h))"

definition stop_inv :: "handle list \<Rightarrow> nat \<Rightarrow> handle set \<Rightarrow> 'v world \<Rightarrow> bool" where
  "stop_inv hs u0 E w =
     (own_done w
      \<and> (\<forall>h. done_listeners w h ''complete'' = (if h \<in> E then 0 else count_list hs h))
      \<and> (\<forall>h. done_listeners w h ''error'' = (if h \<in> E then 0 else count_list hs h))
      \<and> stillCancellingCount w = int (length (filter (\<lambda>h. h \<notin> E) hs))
      \<and> (resolved w \<longleftrightarrow> set hs \<subseteq> E)
      \<and> uninstalls w = u0 + (if resolved w then 1 else 0))"

section \<open>Starting and stopping: the module-level registry\<close>

type_synonym db = nat

text \<open>A JavaScript array that may have holes: a hole, or an index past the end, reads
  \<^verbatim>\<open>undefined\<close>; assigning past the end extends the array.\<close>

definition js_nth :: "'a option list \<Rightarrow> nat \<Rightarrow> 'a option" where
  "js_nth xs i = (if i < length xs then xs ! i else None)"

definition js_assign :: "nat \<Rightarrow> 'a \<Rightarrow> 'a option list \<Rightarrow> 'a option list" where
  "js_assign i v xs =
     (if i < length xs then xs[i := Some v]
      else xs @ replicate (i - length xs) None @ [Some v])"

record 'v dbData =
  dbs :: "db list"
  changesByDbIdx :: "handle option list"
  activeReplicationsByDbIdxAndId :: "handle obj option list"
  activeReplicationSignaturesByDbIdxAndRepId :: "'v signature option obj option list"
  changedByReplicatorByDbIdx :: "string list option list"

text \<open>The object \<^verbatim>\<open>dataFor\<close> returns: the four entries at the index of the database.\<close>

record 'v entry =
  entry_changes :: "handle option"
  entry_activeReplicationsById :: "handle obj option"
  entry_activeReplicationSignaturesByRepId :: "'v signature option obj option"
  entry_changedByReplicator :: "string list option"

definition dataFor :: "'v dbData \<Rightarrow> db \<Rightarrow> string + 'v entry" where
  "dataFor d database =
     (let dbIdx = indexOf (dbs d) database
      in if dbIdx = -1 then Inl ''db doesn't exist''
         else Inr \<lparr>entry_changes = js_nth (changesByDbIdx d) (nat dbIdx),
                   entry_activeReplicationsById =
                     js_nth (activeReplicationsByDbIdxAndId d) (nat dbIdx),
                   entry_activeReplicationSignaturesByRepId =
                     js_nth (activeReplicationSignaturesByDbIdxAndRepId d) (nat dbIdx),
                   entry_changedByReplicator =
                     js_nth (changedByReplicatorByDbIdx d) (nat dbIdx)\<rparr>)"

text \<open>
  Modelled from the spec: the validation collaborator (the package
  \<^verbatim>\<open>pouchdb-validation\<close>, which is not part of this repository). Installing the
  validation methods on a database fails if they are installed already; the state of
  the collaborator is the set of databases that have them.
\<close>

definition installValidationMethods :: "db \<Rightarrow> db set \<Rightarrow> db set option" where
  "installValidationMethods database v = (if database \<in> v then None else Some (insert database v))"

definition uninstallValidationMethods :: "db \<Rightarrow> db set \<Rightarrow> db set" where
  "uninstallValidationMethods database v = v - {database}"

record 'v state =
  dbData :: "'v dbData"
  validation :: "db set"

definition already_active :: error where
  "already_active = Error 500 ''already_active'' ''Replicator already active on this database.''"

definition already_inactive :: error where
  "already_inactive = Error 500 ''already_inactive'' ''Replicator already inactive on this database.''"

text \<open>
  \<^verbatim>\<open>startReplicator\<close> up to the creation of its promise: the installation of the
  validation methods and the new entries of the registry. \<open>Inl\<close> is the rejection.
\<close>

definition startReplicator :: "db \<Rightarrow> 'v state \<Rightarrow> error + 'v state" where
  "startReplicator database s =
     (case installValidationMethods database (validation s) of
        None \<Rightarrow> Inl already_active
      | Some v \<Rightarrow>
          (let d = dbData s;
               i = length (dbs d @ [database]) - 1
           in Inr \<lparr>dbData = d\<lparr>dbs := dbs d @ [database],
                       activeReplicationsByDbIdxAndId :=
                         js_assign i [] (activeReplicationsByDbIdxAndId d),
                       activeReplicationSignaturesByDbIdxAndRepId :=
                         js_assign i [] (activeReplicationSignaturesByDbIdxAndRepId d),
                       changedByReplicatorByDbIdx :=
                         js_assign i [] (changedByReplicatorByDbIdx d)\<rparr>,
                   validation = v\<rparr>))"

text \<open>
  \<^verbatim>\<open>stopReplicator\<close> up to the creation of its promise: the entry of the database is
  taken and removed from the five arrays. \<open>Inl\<close> is the rejection.
\<close>

definition stopReplicator :: "db \<Rightarrow> 'v state \<Rightarrow> error + ('v entry \<times> 'v state)" where
  "stopReplicator database s =
     (case dataFor (dbData s) database of
        Inl err \<Rightarrow> Inl already_inactive
      | Inr data \<Rightarrow>
          (let d = dbData s;
               index = indexOf (dbs d) database
           in Inr (data,
                   s\<lparr>dbData :=
                       d\<lparr>dbs := splice1 index (dbs d),
                         changesByDbIdx := splice1 index (changesByDbIdx d),
                         activeReplicationSignaturesByDbIdxAndRepId :=
                           splice1 index (activeReplicationSignaturesByDbIdxAndRepId d),
                         activeReplicationsByDbIdxAndId :=
                           splice1 index (activeReplicationsByDbIdxAndId d),
                         changedByReplicatorByDbIdx :=
                           splice1 index (changedByReplicatorByDbIdx d)\<rparr>\<rparr>)))"

text \<open>The callback chained to the promise of \<^verbatim>\<open>stopReplicator\<close>.\<close>

definition stopReplicator_then :: "db \<Rightarrow> 'v state \<Rightarrow> 'v state" where
  "stopReplicator_then database s =
     s\<lparr>validation := uninstallValidationMethods database (validation s)\<rparr>"

text \<open>
  The states the registry and the validation collaborator go through: databases are
  started and stopped, a subscription made by \<^verbatim>\<open>startReplicator\<close> is stored at the
  index it computed, and the callback of a stop runs some time after the stop.
  \<open>stopping\<close> are the databases whose stop has not run its callback yet.
\<close>

definition initial :: "'v state" where
  "initial = \<lparr>dbData = \<lparr>dbs = [], changesByDbIdx = [],
                 activeReplicationsByDbIdxAndId = [],
                 activeReplicationSignaturesByDbIdxAndRepId = [],
                 changedByReplicatorByDbIdx = []\<rparr>,
               validation = {}\<rparr>"

inductive reachable :: "'v state \<Rightarrow> db set \<Rightarrow> bool" where
  init: "reachable initial {}"
| start: "reachable s stopping \<Longrightarrow> startReplicator database s = Inr s'
    \<Longrightarrow> reachable s' stopping"
| subscribe: "reachable s stopping \<Longrightarrow>
    reachable (s\<lparr>dbData := (dbData s)\<lparr>changesByDbIdx :=
                 js_assign i h (changesByDbIdx (dbData s))\<rparr>\<rparr>) stopping"
| stop: "reachable s stopping \<Longrightarrow> stopReplicator database s = Inr (data, s')
    \<Longrightarrow> reachable s' (insert database stopping)"
| stopped: "reachable s stopping \<Longrightarrow> database \<in> stopping
    \<Longrightarrow> reachable (stopReplicator_then database s) (stopping - {database})"

section \<open>Example documents and registries\<close>

definition started :: "nat state" where
  "started = (case startReplicator 0 initial of Inr s \<Rightarrow> s | Inl err \<Rightarrow> initial)"

definition rep1 :: "nat document" where
  "rep1 = \<lparr>deleted = None, source = Some 1, target = Some 2, options = fmempty,
            replication_id = None, replication_state = None,
            replication_state_time = None, replication_state_reason = None,
            replication_stats = None, doc_id = ''rep1'', doc_rev = Some ''1-a''\<rparr>"

definition idle :: "nat world" where
  "idle = \<lparr>changes = Some 0, activeReplicationsById = [],
            activeReplicationSignaturesByRepId = [], changedByReplicator = [],
            listeners = (\<lambda>h. []), next_handle = 1, effects = [],
            stillCancellingCount = 0, resolved = False\<rparr>"

definition rep1_triggered :: "nat document" where
  "rep1_triggered = fst (onChanged ''u1'' 3 rep1 idle)"

definition running :: "nat world" where
  "running = snd (onChanged ''u1'' 3 rep1 idle)"

definition conflict :: error where
  "conflict = Error 409 ''conflict'' ''Document update conflict.''"

definition refused :: error where
  "refused = Error 500 ''error'' ''connection refused''"

definition set_completed :: "nat document \<Rightarrow> nat document" where
  "set_completed doc = doc\<lparr>replication_state := Some ''completed''\<rparr>"

definition rep2 :: "nat document" where
  "rep2 = rep1\<lparr>doc_id := ''rep2''\<rparr>"

definition copy1 :: "nat document" where
  "copy1 = rep1\<lparr>replication_state := Some ''triggered'', doc_id := ''copy1''\<rparr>"

definition copy2 :: "nat document" where
  "copy2 = copy1\<lparr>doc_id := ''copy2''\<rparr>"

definition copy1_running :: "nat world" where
  "copy1_running = snd (onChanged ''u1'' 3 copy1 idle)"

definition tombstone :: "nat document" where
  "tombstone = \<lparr>deleted = Some True, source = None, target = None, options = fmempty,
            replication_id = None, replication_state = None,
            replication_state_time = None, replication_state_reason = None,
            replication_stats = None, doc_id = ''rep1'', doc_rev = Some ''2-b''\<rparr>"

definition running_quiet :: "nat world" where
  "running_quiet = running\<lparr>changedByReplicator := []\<rparr>"

definition retargeted :: "nat document" where
  "retargeted = rep1_triggered\<lparr>target := Some 5\<rparr>"

definition retargeted_stored :: "nat document" where
  "retargeted_stored = (fst (onChanged ''u2'' 6 retargeted running_quiet))\<lparr>doc_rev := Some ''3-c''\<rparr>"

definition rep3 :: "nat document" where
  "rep3 = rep1\<lparr>source := Some 7, doc_id := ''rep3''\<rparr>"

definition two_jobs :: "nat world" where
  "two_jobs = snd (onChanged ''u2'' 4 rep3 running_quiet)"

definition stopping_two :: "nat world" where
  "stopping_two = (case stopReplicator_executor two_jobs of Some ws \<Rightarrow> ws | None \<Rightarrow> two_jobs)"

section \<open>Starting twice, stopping what is not started\<close>

lemma indexOf_less_0: "indexOf xs x < 0 \<longleftrightarrow> x \<notin> set xs"
  by (induction xs) (auto simp: Let_def)

lemma indexOf_ge: "- 1 \<le> indexOf xs x"
  by (induction xs) (auto simp: Let_def)

lemma indexOf_neg: "indexOf xs x = -1 \<longleftrightarrow> x \<notin> set xs"
  using indexOf_ge[of xs x] indexOf_less_0[of xs x] by auto

lemma indexOf_bounds: "x \<in> set xs \<Longrightarrow> 0 \<le> indexOf xs x \<and> indexOf xs x < int (length xs)"
  by (induction xs) (auto simp: Let_def indexOf_less_0)

lemma take_drop_indexOf:
  "x \<in> set xs \<Longrightarrow>
     take (nat (indexOf xs x)) xs @ drop (Suc (nat (indexOf xs x))) xs = remove1 x xs"
proof (induction xs)
  case Nil
  then show ?case by simp
next
  case (Cons y ys)
  show ?case
  proof (cases "y = x")
    case True
    then show ?thesis by simp
  next
    case False
    with Cons.prems have in_ys: "x \<in> set ys" by simp
    then have "0 \<le> indexOf ys x" by (simp add: indexOf_bounds)
    then have "nat (indexOf ys x + 1) = Suc (nat (indexOf ys x))" by simp
    with False in_ys Cons.IH show ?thesis
      by (simp add: Let_def indexOf_less_0)
  qed
qed

text \<open>Splicing at the position \<^verbatim>\<open>indexOf\<close> found removes the first occurrence.\<close>

lemma splice1_indexOf: "x \<in> set xs \<Longrightarrow> splice1 (indexOf xs x) xs = remove1 x xs"
  using indexOf_bounds[of x xs] take_drop_indexOf[of x xs]
  by (simp add: splice1_def Let_def min_def)

text \<open>
  In every reachable state a database is registered at most once, a registered database
  has the validation methods installed, and so has a database that is being stopped,
  which is not registered any more.
\<close>

lemma reachable_invariant:
  "reachable s stopping \<Longrightarrow>
     distinct (dbs (dbData s)) \<and> set (dbs (dbData s)) \<subseteq> validation s
     \<and> stopping \<subseteq> validation s \<and> stopping \<inter> set (dbs (dbData s)) = {}"
proof (induction rule: reachable.induct)
  case init
  then show ?case by (simp add: initial_def)
next
  case (start s stopping database s')
  then show ?case
    by (auto simp: startReplicator_def installValidationMethods_def Let_def split: if_splits)
next
  case (subscribe s stopping i h)
  then show ?case by simp
next
  case (stop s stopping database data s')
  then show ?case
    by (auto simp: stopReplicator_def dataFor_def Let_def indexOf_neg splice1_indexOf
        split: if_splits sum.splits)
next
  case (stopped s stopping database)
  then show ?case
    by (auto simp: stopReplicator_then_def uninstallValidationMethods_def)
qed

text \<open>
  Claim C4. In a reachable state, \<^verbatim>\<open>startReplicator\<close> on a database that has a
  registry entry, or the validation methods installed, is rejected with
  \<open>already_active\<close>; in particular a second start after a successful one is. And
  \<^verbatim>\<open>stopReplicator\<close> on a database without a registry entry is rejected with
  \<open>already_inactive\<close>.
\<close>

theorem start_twice_stop_inactive:
  assumes "reachable s stopping"
  shows "(database \<in> set (dbs (dbData s)) \<or> database \<in> validation s
            \<longrightarrow> startReplicator database s = Inl already_active)
       \<and> (startReplicator database s = Inr s'
            \<longrightarrow> database \<in> set (dbs (dbData s'))
                \<and> startReplicator database s' = Inl already_active)
       \<and> (database \<notin> set (dbs (dbData s))
            \<longrightarrow> stopReplicator database s = Inl already_inactive)"
  using reachable_invariant[OF assms]
  by (auto simp: startReplicator_def installValidationMethods_def stopReplicator_def
      dataFor_def Let_def indexOf_neg split: if_splits)

theorem start_twice_stop_inactive_witness:
  "startReplicator 0 (initial :: nat state) = Inr started
   \<and> startReplicator 0 started = Inl already_active
   \<and> stopReplicator 1 started = Inl already_inactive"
proof -
  have first: "startReplicator 0 (initial :: nat state) = Inr started"
    by (simp add: started_def startReplicator_def installValidationMethods_def initial_def)
  have r: "reachable started {}"
    by (rule reachable.start[OF reachable.init first])
  have registered: "dbs (dbData started) = [0]"
    by (simp add: started_def startReplicator_def installValidationMethods_def initial_def)
  from start_twice_stop_inactive[OF r, of 0] registered
  have again: "startReplicator 0 started = Inl already_active" by simp
  from start_twice_stop_inactive[OF r, of 1] registered
  have never: "stopReplicator 1 started = Inl already_inactive" by simp
  from first again never show ?thesis by simp
qed

section \<open>The write-back routine\<close>

lemma truthy_simps [simp]:
  "truthy None = False" "truthy (Some s) = (s \<noteq> [])"
  by (simp_all add: truthy_def)



section \<open>Completion and error handlers\<close>

lemma changedByReplicator_call [simp]: "changedByReplicator (call e w) = changedByReplicator w"
  by (simp add: call_def)

lemma changedByReplicator_cleanup [simp]:
  "changedByReplicator (cleanupReplicationData doc w) = changedByReplicator w"
  by (simp add: cleanupReplicationData_def)

lemma putAsReplicatorChange_id:
  "putAsReplicatorChange now doc w = (doc1, w1) \<Longrightarrow> doc_id doc1 = doc_id doc"
  by (auto simp: putAsReplicatorChange_def Let_def split: if_splits)

lemma putAsReplicatorChange_mark:
  "putAsReplicatorChange now doc w = (doc1, w1) \<Longrightarrow>
     changedByReplicator w1 = changedByReplicator w @ [doc_id doc1]"
  by (auto simp: putAsReplicatorChange_def Let_def split: if_splits)

lemma catch_removes_mark:
  "doc_id doc \<in> set (changedByReplicator w) \<Longrightarrow>
   changedByReplicator (putAsReplicatorChange_catch doc w) = remove1 (doc_id doc) (changedByReplicator w)"
  by (simp add: putAsReplicatorChange_catch_def Let_def splice1_indexOf)

lemma count_list_remove1_snoc: "count_list (remove1 x (xs @ [x])) y = count_list xs y"
  by (induction xs) auto

lemma updateExistingDoc_rejected:
  "updateExistingDoc docId func rs w = (Rejected e, w') \<Longrightarrow>
     \<exists>r \<in> set rs. get_result r = Inl e \<or> (put_result r = Inl e \<and> status e \<noteq> 409)"
proof (induction rs arbitrary: w)
  case Nil
  then show ?case by simp
next
  case (Cons r rs)
  then show ?case
    by (fastforce split: sum.splits prod.splits if_splits simp: Let_def)
qed

lemma rep1_triggered_eq:
  "rep1_triggered = rep1\<lparr>replication_id := Some ''u1'', replication_state := Some ''triggered'',
      replication_state_time := Some 3\<rparr>"
  by (simp add: rep1_triggered_def onChanged_def rep1_def idle_def Let_def is_design_def
      inherited_def object_prototype_names_def
      obj_get_def cleanupReplicationData_def obj_delete_def signature_of_def prop_key_def
      start_replication_def putAsReplicatorChange_def)

lemma running_eq:
  "running = idle\<lparr>activeReplicationsById := [(''rep1'', 1)],
      activeReplicationSignaturesByRepId := [(''u1'', Some (signature_of rep1))],
      changedByReplicator := [''rep1''],
      listeners := (\<lambda>h. [])(1 := [(''complete'', onReplicationComplete_for ''rep1''),
                                (''error'', onReplicationError_for ''rep1'')]),
      next_handle := 2,
      effects := [Replicate 1 (Some 1) (Some 2)
                    (rep1\<lparr>replication_id := Some ''u1'', replication_state := Some ''triggered''\<rparr>),
                  Put rep1_triggered replicator_roles]\<rparr>"
  by (simp add: running_def rep1_triggered_eq onChanged_def rep1_def idle_def Let_def is_design_def
      inherited_def object_prototype_names_def
      obj_get_def cleanupReplicationData_def obj_delete_def signature_of_def prop_key_def
      start_replication_def putAsReplicatorChange_def call_def on_def obj_set_def)





lemma obj_get_delete [simp]: "obj_get (obj_delete k obj) k = None"
  by (induction obj) (auto simp: obj_get_def obj_delete_def)

lemma updateExistingDoc_conflicts:
  assumes "\<forall>c \<in> set cs. (\<exists>d. get_result c = Inr d) \<and> (\<exists>e. put_result c = Inl e \<and> status e = 409)"
  shows "\<exists>w1. updateExistingDoc docId func (cs @ rs) w = updateExistingDoc docId func rs w1"
  using assms
proof (induction cs arbitrary: w)
  case Nil
  then show ?case by auto
next
  case (Cons c cs)
  from Cons.prems obtain d e where c: "get_result c = Inr d" "put_result c = Inl e" "status e = 409"
    by auto
  obtain doc1 w1 where t: "updateExistingDoc_then func (clock c) d (call (Get docId) w) = (doc1, w1)"
    by (cases "updateExistingDoc_then func (clock c) d (call (Get docId) w)")
  from c t have "updateExistingDoc docId func ((c # cs) @ rs) w
      = updateExistingDoc docId func (cs @ rs) (putAsReplicatorChange_catch doc1 w1)"
    by (simp add: Let_def)
  moreover from Cons.prems have "\<forall>c \<in> set cs. (\<exists>d. get_result c = Inr d) \<and> (\<exists>e. put_result c = Inl e \<and> status e = 409)"
    by simp
  ultimately show ?case using Cons.IH by metis
qed

lemma updateExistingDoc_success:
  assumes "get_result r = Inr doc" "put_result r = Inr u"
  shows "updateExistingDoc docId func (r # rs) w
      = (Fulfilled, snd (updateExistingDoc_then func (clock r) doc (call (Get docId) w)))"
  using assms by (simp add: Let_def split: prod.splits)

lemma updateExistingDoc_then_result:
  "snd (updateExistingDoc_then func now doc w) = w' \<Longrightarrow>
     effects w' = effects w @ [Put (if truthy (replication_state (func doc)) then (func doc)\<lparr>replication_state_time := Some now\<rparr> else func doc) replicator_roles]
   \<and> activeReplicationsById w' = obj_delete (doc_id doc) (activeReplicationsById w)
   \<and> activeReplicationSignaturesByRepId w' = obj_delete (prop_key (replication_id doc)) (activeReplicationSignaturesByRepId w)
   \<and> changedByReplicator w' = changedByReplicator w @ [doc_id (func doc)]"
  by (auto simp: updateExistingDoc_then_def putAsReplicatorChange_def Let_def call_def cleanupReplicationData_def)




section \<open>Reconciliation of a changed document\<close>

lemma map_of_obj_insert_new:
  "k \<notin> fst ` set obj \<Longrightarrow> map_of (obj_insert_new k v obj) = (map_of obj)(k \<mapsto> v)"
  by (induction obj) (auto split: option.splits simp: fun_eq_iff)

lemma map_of_replace_other:
  "k' \<noteq> k \<Longrightarrow> map_of (map (\<lambda>p. if fst p = k then (k, v) else p) obj) k' = map_of obj k'"
  by (induction obj) auto

lemma map_of_replace_same:
  "k \<in> fst ` set obj \<Longrightarrow> map_of (map (\<lambda>p. if fst p = k then (k, v) else p) obj) k = Some v"
  by (induction obj) auto

lemma obj_get_set: "obj_get (obj_set k v obj) k' = (if k' = k then Some v else obj_get obj k')"
  by (simp add: obj_get_def obj_set_def map_of_obj_insert_new map_of_replace_other
      map_of_replace_same)

lemma obj_get_delete_other: "k' \<noteq> k \<Longrightarrow> obj_get (obj_delete k obj) k' = obj_get obj k'"
  by (induction obj) (auto simp: obj_get_def obj_delete_def)

lemma getMatchingSignatureId_delete_None:
  "getMatchingSignatureId obj s = None \<Longrightarrow> getMatchingSignatureId (obj_delete k obj) s = None"
  by (induction obj) (auto simp: obj_delete_def split: if_splits)

lemma getMatchingSignatureId_Some:
  "getMatchingSignatureId obj s = Some r \<Longrightarrow> (r, Some s) \<in> set obj"
  by (induction obj) (auto split: if_splits)

lemma getMatchingSignatureId_None:
  "getMatchingSignatureId obj s = None \<longleftrightarrow> (\<forall>r. (r, Some s) \<notin> set obj)"
  by (induction obj) (auto split: if_splits)

lemma superseded_fields:
  "activeReplicationsById (superseded doc w) = obj_delete (doc_id doc) (activeReplicationsById w)"
  "activeReplicationSignaturesByRepId (superseded doc w)
     = obj_delete (prop_key (replication_id doc)) (activeReplicationSignaturesByRepId w)"
  "changedByReplicator (superseded doc w) = changedByReplicator w"
  "listeners (superseded doc w) = listeners w"
  "next_handle (superseded doc w) = next_handle w"
  "effects (superseded doc w) = effects w @
     (case obj_get (activeReplicationsById w) (doc_id doc) of Some h \<Rightarrow> [Cancel h] | None \<Rightarrow> [])"
  by (auto simp: superseded_def cleanupReplicationData_def call_def split: option.splits)

lemma onChanged_not_deleted:
  assumes "doc_id doc \<notin> set (changedByReplicator w)" "\<not> is_design (doc_id doc)"
    "obj_get (activeReplicationsById w) (doc_id doc) \<noteq> None \<or> \<not> inherited (doc_id doc)"
    "deleted doc \<noteq> Some True"
  shows "onChanged uuid now doc w =
    (let w3 = superseded doc w;
         repId = getMatchingSignatureId (activeReplicationSignaturesByRepId w3) (signature_of doc);
         doc1 = (if truthy repId then doc\<lparr>replication_id := repId\<rparr>
                 else doc\<lparr>replication_id := Some uuid, replication_state := Some ''triggered''\<rparr>);
         w4 = (if replication_state doc1 = Some ''triggered''
               then start_replication doc1 (Some (signature_of doc)) w3 else w3)
     in if doc1 \<noteq> doc then putAsReplicatorChange now doc1 w4 else (doc1, w4))"
proof -
  from assms(3)
  have "\<not> (obj_get (activeReplicationsById w) (doc_id doc) = None \<and> inherited (doc_id doc))"
    by blast
  with assms(1,2,4) show ?thesis
    by (cases "obj_get (activeReplicationsById w) (doc_id doc)")
      (simp_all add: onChanged_def superseded_def Let_def)
qed

lemma onChanged_deleted:
  assumes "doc_id doc \<notin> set (changedByReplicator w)" "\<not> is_design (doc_id doc)"
    "obj_get (activeReplicationsById w) (doc_id doc) \<noteq> None \<or> \<not> inherited (doc_id doc)"
    "deleted doc = Some True"
  shows "onChanged uuid now doc w =
    (let w3 = superseded doc w;
         registered = (if truthy (replication_id doc)
                  then (case obj_get (activeReplicationSignaturesByRepId w)
                               (prop_key (replication_id doc)) of
                          Some s \<Rightarrow> s | None \<Rightarrow> None)
                  else None)
     in (doc, if replication_state doc = Some ''triggered''
               then start_replication doc registered w3 else w3))"
proof -
  from assms(3)
  have "\<not> (obj_get (activeReplicationsById w) (doc_id doc) = None \<and> inherited (doc_id doc))"
    by blast
  with assms(1,2,4) show ?thesis
    by (cases "obj_get (activeReplicationsById w) (doc_id doc)")
      (simp_all add: onChanged_def superseded_def Let_def call_def)
qed

lemma start_replication_fields:
  "activeReplicationsById (start_replication doc cs w) = obj_set (doc_id doc) (next_handle w) (activeReplicationsById w)"
  "activeReplicationSignaturesByRepId (start_replication doc cs w)
     = obj_set (prop_key (replication_id doc)) cs (activeReplicationSignaturesByRepId w)"
  "changedByReplicator (start_replication doc cs w) = changedByReplicator w"
  "listeners (start_replication doc cs w) = (listeners w)(next_handle w :=
      listeners w (next_handle w) @ [(''complete'', onReplicationComplete_for (doc_id doc)),
                                     (''error'', onReplicationError_for (doc_id doc))])"
  "next_handle (start_replication doc cs w) = Suc (next_handle w)"
  "effects (start_replication doc cs w) = effects w @ [Replicate (next_handle w) (source doc) (target doc) doc]"
  by (auto simp: start_replication_def Let_def call_def on_def)


lemmas ev = onChanged_def Let_def is_design_def inherited_def object_prototype_names_def
      obj_get_def cleanupReplicationData_def obj_delete_def signature_of_def prop_key_def
      start_replication_def putAsReplicatorChange_def call_def on_def obj_set_def
      signature.truncate_def document.defs signature.defs




lemma set_obj_delete: "set (obj_delete k obj) = {p \<in> set obj. fst p \<noteq> k}"
  by (auto simp: obj_delete_def)

lemma getMatchingSignatureId_delete_Some:
  assumes "(r, Some s) \<in> set obj" "r \<noteq> k"
  shows "\<exists>r'. getMatchingSignatureId (obj_delete k obj) s = Some r'
            \<and> (r', Some s) \<in> set obj \<and> r' \<noteq> k"
proof (cases "getMatchingSignatureId (obj_delete k obj) s")
  case None
  with assms show ?thesis
    by (auto simp: getMatchingSignatureId_None set_obj_delete)
next
  case (Some r')
  from getMatchingSignatureId_Some[OF Some] show ?thesis
    using Some by (auto simp: set_obj_delete)
qed

text \<open>
  The registry keeps signatures under fresh keys: \<^verbatim>\<open>onChanged\<close> preserves it, given
  that \<^verbatim>\<open>uuid()\<close> returns a non-empty id that the document does not carry.
\<close>

lemma set_obj_insert_new: "set (obj_insert_new k v obj) = insert (k, v) (set obj)"
  by (induction obj) (auto split: option.splits)

lemma set_obj_set: "set (obj_set k v obj) \<subseteq> insert (k, v) (set obj)"
  by (auto simp: obj_set_def set_obj_insert_new split: if_splits)

lemma fresh_keys_delete: "fresh_keys obj \<Longrightarrow> fresh_keys (obj_delete k obj)"
  by (auto simp: fresh_keys_def set_obj_delete)

lemma fresh_keys_set:
  assumes "fresh_keys obj" "\<And>s. v = Some s \<Longrightarrow> k \<noteq> [] \<and> k \<noteq> prop_key (replication_id s)"
  shows "fresh_keys (obj_set k v obj)"
  unfolding fresh_keys_def
proof (intro allI impI)
  fix k' s assume "(k', Some s) \<in> set (obj_set k v obj)"
  with set_obj_set[of k v obj] have "(k', Some s) = (k, v) \<or> (k', Some s) \<in> set obj" by auto
  with assms show "k' \<noteq> [] \<and> k' \<noteq> prop_key (replication_id s)"
    by (auto simp: fresh_keys_def)
qed

lemma signature_of_replication_id [simp]: "replication_id (signature_of doc) = replication_id doc"
  by (simp add: signature_of_def signature.truncate_def)

lemma putAsReplicatorChange_signatures:
  "activeReplicationSignaturesByRepId (snd (putAsReplicatorChange now doc w)) = activeReplicationSignaturesByRepId w"
  by (simp add: putAsReplicatorChange_def Let_def call_def)

lemma fresh_keys_onChanged:
  assumes inv: "fresh_keys (activeReplicationSignaturesByRepId w)"
    and uuid: "uuid \<noteq> []" "uuid \<noteq> prop_key (replication_id doc)"
  shows "fresh_keys (activeReplicationSignaturesByRepId (snd (onChanged uuid now doc w)))"
proof -
  let ?sigs = "activeReplicationSignaturesByRepId w"
  let ?w3 = "superseded doc w"
  have s3: "activeReplicationSignaturesByRepId ?w3 = obj_delete (prop_key (replication_id doc)) ?sigs"
    by (simp add: superseded_fields)
  have inv3: "fresh_keys (activeReplicationSignaturesByRepId ?w3)"
    using inv by (simp add: s3 fresh_keys_delete)
  consider (abort) "doc_id doc \<in> set (changedByReplicator w) \<or> is_design (doc_id doc)"
    | (throw) "doc_id doc \<notin> set (changedByReplicator w)" "\<not> is_design (doc_id doc)"
        "obj_get (activeReplicationsById w) (doc_id doc) = None" "inherited (doc_id doc)"
    | (tomb) "doc_id doc \<notin> set (changedByReplicator w)" "\<not> is_design (doc_id doc)"
        "\<not> (obj_get (activeReplicationsById w) (doc_id doc) = None \<and> inherited (doc_id doc))"
        "deleted doc = Some True"
    | (live) "doc_id doc \<notin> set (changedByReplicator w)" "\<not> is_design (doc_id doc)"
        "\<not> (obj_get (activeReplicationsById w) (doc_id doc) = None \<and> inherited (doc_id doc))"
        "deleted doc \<noteq> Some True"
    by (cases "doc_id doc \<in> set (changedByReplicator w) \<or> is_design (doc_id doc)";
        cases "obj_get (activeReplicationsById w) (doc_id doc) = None \<and> inherited (doc_id doc)";
        cases "deleted doc = Some True") auto
  then show ?thesis
  proof cases
    case abort
    then show ?thesis using inv by (auto simp: onChanged_def Let_def)
  next
    case throw
    then show ?thesis using inv by (simp add: onChanged_def Let_def call_def)
  next
    case tomb
    let ?registered = "(if truthy (replication_id doc)
                  then (case obj_get ?sigs (prop_key (replication_id doc)) of
                          Some s \<Rightarrow> s | None \<Rightarrow> None)
                  else None)"
    have reg: "prop_key (replication_id doc) \<noteq> []
               \<and> prop_key (replication_id doc) \<noteq> prop_key (replication_id s)"
      if "?registered = Some s" for s
    proof -
      from that have "(prop_key (replication_id doc), Some s) \<in> set ?sigs"
        by (auto simp: obj_get_def split: if_splits option.splits dest: map_of_SomeD)
      with inv show ?thesis by (auto simp: fresh_keys_def)
    qed
    have "onChanged uuid now doc w
        = (doc, if replication_state doc = Some ''triggered''
                then start_replication doc ?registered ?w3 else ?w3)"
      using onChanged_deleted[OF tomb(1,2) _ tomb(4), of uuid now] tomb(3)
      by (simp add: Let_def)
    moreover have "fresh_keys (obj_set (prop_key (replication_id doc)) ?registered
        (activeReplicationSignaturesByRepId ?w3))"
      by (rule fresh_keys_set[OF inv3 reg])
    ultimately show ?thesis
      using inv3 by (simp add: start_replication_fields)
  next
    case live
    let ?repId = "getMatchingSignatureId (activeReplicationSignaturesByRepId ?w3) (signature_of doc)"
    let ?doc1 = "if truthy ?repId then doc\<lparr>replication_id := ?repId\<rparr>
                 else doc\<lparr>replication_id := Some uuid, replication_state := Some ''triggered''\<rparr>"
    let ?w4 = "if replication_state ?doc1 = Some ''triggered''
               then start_replication ?doc1 (Some (signature_of doc)) ?w3 else ?w3"
    have key: "prop_key (replication_id ?doc1) \<noteq> [] \<and> prop_key (replication_id ?doc1) \<noteq> prop_key (replication_id doc)"
    proof (cases "truthy ?repId")
      case True
      then obtain r where r: "?repId = Some r" "r \<noteq> []" by (cases ?repId) auto
      from getMatchingSignatureId_Some[OF r(1)] have "r \<noteq> prop_key (replication_id doc)"
        by (auto simp: s3 set_obj_delete)
      with True r show ?thesis by (simp add: prop_key_def)
    next
      case False
      with uuid show ?thesis by (simp add: prop_key_def)
    qed
    from live(3) have "obj_get (activeReplicationsById w) (doc_id doc) \<noteq> None \<or> \<not> inherited (doc_id doc)"
      by auto
    from onChanged_not_deleted[OF live(1,2) this live(4), of uuid now]
    have "onChanged uuid now doc w
        = (if ?doc1 \<noteq> doc then putAsReplicatorChange now ?doc1 ?w4 else (?doc1, ?w4))"
      by (simp add: Let_def)
    then have "activeReplicationSignaturesByRepId (snd (onChanged uuid now doc w))
        = activeReplicationSignaturesByRepId ?w4"
      by (simp add: putAsReplicatorChange_signatures)
    moreover have "fresh_keys (obj_set (prop_key (replication_id ?doc1))
        (Some (signature_of doc)) (activeReplicationSignaturesByRepId ?w3))"
    proof (rule fresh_keys_set[OF inv3])
      fix s assume "Some (signature_of doc) = Some s"
      then have "replication_id s = replication_id doc" by auto
      with key show "prop_key (replication_id ?doc1) \<noteq> []
          \<and> prop_key (replication_id ?doc1) \<noteq> prop_key (replication_id s)"
        by simp
    qed
    then have "fresh_keys (activeReplicationSignaturesByRepId ?w4)"
      using inv3 by (simp add: start_replication_fields)
    ultimately show ?thesis by simp
  qed
qed


lemma fresh_keys_empty: "fresh_keys []"
  by (simp add: fresh_keys_def)

lemma fresh_keys_cleanupReplicationData:
  "fresh_keys (activeReplicationSignaturesByRepId w)
     \<Longrightarrow> fresh_keys (activeReplicationSignaturesByRepId (cleanupReplicationData doc w))"
  by (simp add: cleanupReplicationData_def fresh_keys_delete)





text \<open>
  A change whose id is marked as a self-write is not reconciled: the document, the two
  maps of the registry, the listeners and the calls made stay as they are. What the
  list of marks loses is the element at the position that \<^verbatim>\<open>splice\<close> makes of the
  document id.
\<close>

lemma onChanged_self_write_aborts:
  "doc_id doc \<in> set (changedByReplicator w) \<Longrightarrow>
     onChanged uuid now doc w
       = (doc, w\<lparr>changedByReplicator :=
                    splice1 (ToIntegerOrInfinity (doc_id doc)) (changedByReplicator w)\<rparr>)"
  by (simp add: onChanged_def)

text \<open>
  Claim C2: the code differs. The mark is removed with \<^verbatim>\<open>splice(doc._id, 1)\<close>,
  whose start is the document id, not the position of the id. With the marks of
  \<open>rep0\<close> and \<open>rep1\<close> pending, the change of \<open>rep1\<close> removes the mark of
  \<open>rep0\<close> and keeps its own; with the id \<open>1\<close> and its mark alone, nothing is
  removed. In both cases reconciliation is aborted and nothing else changes.
\<close>

theorem onChanged_self_write_removes_wrong_mark:
  "onChanged ''u2'' 4 rep1_triggered (idle\<lparr>changedByReplicator := [''rep0'', ''rep1'']\<rparr>)
     = (rep1_triggered, idle\<lparr>changedByReplicator := [''rep1'']\<rparr>)
   \<and> onChanged ''u2'' 4 (rep1_triggered\<lparr>doc_id := ''1''\<rparr>)
         (idle\<lparr>changedByReplicator := [''1'']\<rparr>)
     = (rep1_triggered\<lparr>doc_id := ''1''\<rparr>, idle\<lparr>changedByReplicator := [''1'']\<rparr>)"
  by (simp add: onChanged_def Let_def idle_def splice1_def ToIntegerOrInfinity_def
      is_digit_def digits_value_def rep1_triggered_eq rep1_def)

text \<open>
  A tombstone that is reconciled and does not carry the state \<open>triggered\<close>: the job
  registered for its id is cancelled, the entry of the job is deleted, as is the
  signature under the replication id that the tombstone carries, and nothing is written.
\<close>

lemma onChanged_tombstone:
  assumes "doc_id doc \<notin> set (changedByReplicator w)" "\<not> is_design (doc_id doc)"
    and "obj_get (activeReplicationsById w) (doc_id doc) = Some h"
    and "deleted doc = Some True" "replication_state doc \<noteq> Some ''triggered''"
  shows "onChanged uuid now doc w
           = (doc, w\<lparr>activeReplicationsById := obj_delete (doc_id doc) (activeReplicationsById w),
                      activeReplicationSignaturesByRepId :=
                        obj_delete (prop_key (replication_id doc))
                          (activeReplicationSignaturesByRepId w),
                      effects := effects w @ [Cancel h]\<rparr>)"
  using assms onChanged_deleted[of doc w uuid now]
  by (simp add: Let_def superseded_def cleanupReplicationData_def call_def)

text \<open>
  Claim C8: the code differs. The tombstone that deleting a document leaves has no
  \<open>replication_id\<close>, so \<^verbatim>\<open>cleanupReplicationData\<close> deletes the key
  \<^verbatim>\<open>"undefined"\<close>: the job of \<open>rep1\<close> is cancelled and its entry removed, nothing
  is written, but its signature stays registered under \<open>u1\<close>. A document with that
  signature that arrives later gets the id \<open>u1\<close> of the cancelled job, and no job is
  started for it. A tombstone that still carries the state \<open>triggered\<close> starts a new
  job for the deleted document.
\<close>

theorem onChanged_tombstone_keeps_signature:
  "onChanged ''u2'' 4 tombstone running_quiet
     = (tombstone,
        running_quiet\<lparr>activeReplicationsById := [],
                      effects := effects running_quiet @ [Cancel 1]\<rparr>)
   \<and> activeReplicationSignaturesByRepId (snd (onChanged ''u2'' 4 tombstone running_quiet))
       = [(''u1'', Some (signature_of rep1))]
   \<and> fst (onChanged ''u3'' 5 rep2 (snd (onChanged ''u2'' 4 tombstone running_quiet)))
       = rep2\<lparr>replication_id := Some ''u1''\<rparr>
   \<and> effects (snd (onChanged ''u3'' 5 rep2 (snd (onChanged ''u2'' 4 tombstone running_quiet))))
       = effects running_quiet
         @ [Cancel 1, Put (rep2\<lparr>replication_id := Some ''u1''\<rparr>) replicator_roles]
   \<and> obj_get (activeReplicationsById
         (snd (onChanged ''u2'' 4 (rep1_triggered\<lparr>deleted := Some True\<rparr>) running_quiet)))
         ''rep1'' = Some 2"
  by (simp add: running_quiet_def running_eq rep1_triggered_eq tombstone_def rep2_def
      rep1_def idle_def ev)

section \<open>A superseded job that reports\<close>

lemma onChanged_no_match:
  assumes nosw: "doc_id doc \<notin> set (changedByReplicator w)"
    and nodesign: "\<not> is_design (doc_id doc)"
    and plain: "\<not> inherited (doc_id doc)"
    and live: "deleted doc \<noteq> Some True"
    and nomatch: "getMatchingSignatureId (activeReplicationSignaturesByRepId w) (signature_of doc) = None"
  shows "onChanged uuid now doc w
      = (let doc1 = doc\<lparr>replication_id := Some uuid, replication_state := Some ''triggered''\<rparr>;
             w4 = start_replication doc1 (Some (signature_of doc)) (superseded doc w)
         in if doc1 \<noteq> doc then putAsReplicatorChange now doc1 w4 else (doc1, w4))"
proof -
  let ?doc1 = "doc\<lparr>replication_id := Some uuid, replication_state := Some ''triggered''\<rparr>"
  have none: "getMatchingSignatureId (activeReplicationSignaturesByRepId (superseded doc w)) (signature_of doc) = None"
    using nomatch by (simp add: superseded_fields getMatchingSignatureId_delete_None)
  have st: "replication_state doc = Some ''triggered''" if "?doc1 = doc"
    using arg_cong[OF that, of replication_state] by simp
  then show ?thesis
    by (auto simp add: onChanged_not_deleted[OF nosw nodesign disjI2[OF plain] live] Let_def none)
qed

lemma putAsReplicatorChange_registry:
  assumes "putAsReplicatorChange now doc w = (doc', w')"
  shows "activeReplicationsById w' = activeReplicationsById w"
    and "activeReplicationSignaturesByRepId w' = activeReplicationSignaturesByRepId w"
    and "listeners w' = listeners w"
    and "next_handle w' = next_handle w"
    and "set (effects w) \<subseteq> set (effects w')"
  using assms by (auto simp: putAsReplicatorChange_def Let_def call_def)




section \<open>Stopping waits for every emitter\<close>

lemma doneCancelling_fields:
  "stillCancellingCount (doneCancelling h w) = stillCancellingCount w - 1"
  "listeners (doneCancelling h w) = (listeners w)(h := [])"
  "resolved (doneCancelling h w) = (resolved w \<or> stillCancellingCount w = 1)"
  "uninstalls (doneCancelling h w)
     = uninstalls w + (if \<not> resolved w \<and> stillCancellingCount w = 1 then 1 else 0)"
  by (auto simp: doneCancelling_def removeAllListeners_def resolve_def call_def Let_def uninstalls_def)

lemma call_Get_fields:
  "stillCancellingCount (call (Get i) w) = stillCancellingCount w"
  "listeners (call (Get i) w) = listeners w"
  "resolved (call (Get i) w) = resolved w"
  "uninstalls (call (Get i) w) = uninstalls w"
  by (auto simp: call_def uninstalls_def)

lemma fold_invoke_stopped:
  assumes "\<forall>l \<in> set ls. \<forall>h'. l = doneCancelling_for h' \<longrightarrow> h' = h"
  shows "stillCancellingCount (fold (invoke False n rounds) ls w)
           = stillCancellingCount w - int (length (filter (\<lambda>l. l = doneCancelling_for h) ls))
       \<and> listeners (fold (invoke False n rounds) ls w)
           = (if filter (\<lambda>l. l = doneCancelling_for h) ls = [] then listeners w
              else (listeners w)(h := []))
       \<and> resolved (fold (invoke False n rounds) ls w)
           = (resolved w \<or> (0 < stillCancellingCount w
                \<and> stillCancellingCount w \<le> int (length (filter (\<lambda>l. l = doneCancelling_for h) ls))))
       \<and> uninstalls (fold (invoke False n rounds) ls w)
           = uninstalls w + (if \<not> resolved w \<and> 0 < stillCancellingCount w
                \<and> stillCancellingCount w \<le> int (length (filter (\<lambda>l. l = doneCancelling_for h) ls))
              then 1 else 0)"
  using assms
proof (induction ls arbitrary: w)
  case Nil
  then show ?case by auto
next
  case (Cons l ls)
  then have rest: "\<forall>l \<in> set ls. \<forall>h'. l = doneCancelling_for h' \<longrightarrow> h' = h" by simp
  note IH = Cons.IH[OF rest]
  show ?case
  proof (cases l)
    case (onReplicationComplete_for i)
    then show ?thesis using IH[of "call (Get i) w"]
      by (simp add: invoke_def call_Get_fields)
  next
    case (onReplicationError_for i)
    then show ?thesis using IH[of "call (Get i) w"]
      by (simp add: invoke_def call_Get_fields)
  next
    case (doneCancelling_for h')
    with Cons.prems have "h' = h" by simp
    with doneCancelling_for show ?thesis using IH[of "doneCancelling h w"]
      by (auto simp add: invoke_def doneCancelling_fields)
  next
    case onChange
    then show ?thesis using IH[of w]
      by (simp add: invoke_def)
  qed
qed


lemma fold_invoke_stopped_count:
  assumes "\<forall>l \<in> set ls. \<forall>h'. l = doneCancelling_for h' \<longrightarrow> h' = h"
    and "length (filter (\<lambda>l. l = doneCancelling_for h) ls) = k"
  shows "stillCancellingCount (fold (invoke False n rounds) ls w) = stillCancellingCount w - int k"
    and "listeners (fold (invoke False n rounds) ls w)
           = (if k = 0 then listeners w else (listeners w)(h := []))"
    and "resolved (fold (invoke False n rounds) ls w)
           = (resolved w \<or> (0 < stillCancellingCount w \<and> stillCancellingCount w \<le> int k))"
    and "uninstalls (fold (invoke False n rounds) ls w)
           = uninstalls w + (if \<not> resolved w \<and> 0 < stillCancellingCount w
                \<and> stillCancellingCount w \<le> int k then 1 else 0)"
  using fold_invoke_stopped[OF assms(1), of n rounds w] assms(2)
  by auto

lemma filter_insert_count:
  "length (filter (\<lambda>x. x \<notin> insert h E) hs) + (if h \<in> E then 0 else count_list hs h)
     = length (filter (\<lambda>x. x \<notin> E) hs)"
  by (induction hs) auto

lemma filter_none_iff: "filter (\<lambda>x. x \<notin> E) hs = [] \<longleftrightarrow> set hs \<subseteq> E"
  by (induction hs) auto

lemma snapshot_done:
  assumes "own_done w"
  shows "\<forall>l \<in> set (map snd (filter (\<lambda>p. fst p = event) (listeners w h))).
           \<forall>h'. l = doneCancelling_for h' \<longrightarrow> h' = h"
    and "length (filter (\<lambda>l. l = doneCancelling_for h)
           (map snd (filter (\<lambda>p. fst p = event) (listeners w h))))
         = done_listeners w h event"
proof -
  from assms show "\<forall>l \<in> set (map snd (filter (\<lambda>p. fst p = event) (listeners w h))).
           \<forall>h'. l = doneCancelling_for h' \<longrightarrow> h' = h"
    by (auto simp: own_done_def)
  have "filter (\<lambda>l. l = doneCancelling_for h) (map snd (filter (\<lambda>p. fst p = event) xs))
        = map snd (filter (\<lambda>p. p = (event, doneCancelling_for h)) xs)" for xs :: "(string \<times> listener) list"
    by (induction xs) auto
  then show "length (filter (\<lambda>l. l = doneCancelling_for h)
           (map snd (filter (\<lambda>p. fst p = event) (listeners w h))))
         = done_listeners w h event"
    by (simp add: done_listeners_def)
qed

lemma event_of_cases: "event_of n = ''complete'' \<or> event_of n = ''error''"
  by (cases n) (simp_all add: event_of_def)

lemma notify_stopped_inv:
  assumes inv: "stop_inv hs u0 E w"
  shows "stop_inv hs u0 (insert h E) (notify False [] h n w)"
proof -
  let ?ev = "event_of n"
  let ?ls = "map snd (filter (\<lambda>p. fst p = ?ev) (listeners w h))"
  let ?k = "if h \<in> E then 0 else count_list hs h"
  let ?w' = "notify False [] h n w"
  from inv have own: "own_done w" by (simp add: stop_inv_def)
  from inv event_of_cases[of n] have k: "done_listeners w h ?ev = ?k"
    by (auto simp: stop_inv_def)
  note snap = snapshot_done[OF own, where event = ?ev and h = h]
  from snap(2) k have "length (filter (\<lambda>l. l = doneCancelling_for h) ?ls) = ?k" by simp
  from fold_invoke_stopped_count[OF snap(1) this, where n = n and rounds = "[]" and w = w]
  have c: "stillCancellingCount ?w' = stillCancellingCount w - int ?k"
    and l: "listeners ?w' = (if ?k = 0 then listeners w else (listeners w)(h := []))"
    and r: "resolved ?w' = (resolved w \<or> (0 < stillCancellingCount w \<and> stillCancellingCount w \<le> int ?k))"
    and u: "uninstalls ?w' = uninstalls w + (if \<not> resolved w \<and> 0 < stillCancellingCount w
                \<and> stillCancellingCount w \<le> int ?k then 1 else 0)"
    by (simp_all add: notify_def emit_def)
  from inv have c0: "stillCancellingCount w = int (length (filter (\<lambda>h. h \<notin> E) hs))"
    and r0: "resolved w \<longleftrightarrow> set hs \<subseteq> E"
    and u0: "uninstalls w = u0 + (if resolved w then 1 else 0)"
    and dc: "\<forall>h. done_listeners w h ''complete'' = (if h \<in> E then 0 else count_list hs h)"
    and de: "\<forall>h. done_listeners w h ''error'' = (if h \<in> E then 0 else count_list hs h)"
    by (simp_all add: stop_inv_def)
  have own': "own_done ?w'"
    using own l by (auto simp: own_done_def)
  have dl: "done_listeners ?w' h' ev = (if h' = h then 0 else done_listeners w h' ev)"
    if "ev = ''complete'' \<or> ev = ''error''" for h' ev
  proof (cases "h' = h")
    case True
    from dc de that have "done_listeners w h ev = ?k" by auto
    with True l show ?thesis
      by (cases "?k = 0") (simp_all add: done_listeners_def)
  next
    case False
    with l show ?thesis by (simp add: done_listeners_def)
  qed
  have c': "stillCancellingCount ?w' = int (length (filter (\<lambda>x. x \<notin> insert h E) hs))"
    using c c0 filter_insert_count[of h E hs] by simp
  have r': "resolved ?w' \<longleftrightarrow> set hs \<subseteq> insert h E"
  proof (cases "resolved w")
    case True
    with r r0 show ?thesis by auto
  next
    case False
    with r0 have "length (filter (\<lambda>h. h \<notin> E) hs) \<noteq> 0" by (simp add: filter_none_iff)
    then have pos: "0 < stillCancellingCount w" using c0 by simp
    have sum: "length (filter (\<lambda>x. x \<notin> insert h E) hs) + ?k
                 = length (filter (\<lambda>x. x \<notin> E) hs)"
      by (rule filter_insert_count)
    have "int (length (filter (\<lambda>x. x \<notin> E) hs)) \<le> int ?k
            \<longleftrightarrow> length (filter (\<lambda>x. x \<notin> insert h E) hs) = 0"
      using sum by linarith
    moreover have "length (filter (\<lambda>x. x \<notin> insert h E) hs) = 0
            \<longleftrightarrow> set hs \<subseteq> insert h E"
      using filter_none_iff[of "insert h E" hs] by (simp only: length_0_conv)
    ultimately have "stillCancellingCount w \<le> int ?k \<longleftrightarrow> set hs \<subseteq> insert h E"
      unfolding c0 by (rule trans)
    with False r pos show ?thesis by simp
  qed
  have u': "uninstalls ?w' = u0 + (if resolved ?w' then 1 else 0)"
    using u u0 r by auto
  from own' dl dc de c' r' u' show ?thesis
    by (simp add: stop_inv_def)
qed

lemma notify_all_inv:
  "stop_inv hs u0 E w \<Longrightarrow> stop_inv hs u0 (E \<union> fst ` set es) (notify_all es w)"
proof (induction es arbitrary: E w)
  case Nil
  then show ?case by simp
next
  case (Cons e es)
  from Cons.IH[OF notify_stopped_inv[OF Cons.prems, of "fst e" "snd e"]]
  show ?case by simp
qed


lemma cancel_fields:
  "stillCancellingCount (cancel c w) = stillCancellingCount w + 1"
  "resolved (cancel c w) = resolved w"
  "uninstalls (cancel c w) = uninstalls w"
  "activeReplicationsById (cancel c w) = activeReplicationsById w"
  "listeners (cancel c w) = (listeners w)(c := listeners w c @
      [(''complete'', doneCancelling_for c), (''error'', doneCancelling_for c)])"
  by (simp_all add: cancel_def Let_def on_def call_def uninstalls_def)

lemma cancel_done:
  "ev = ''complete'' \<or> ev = ''error'' \<Longrightarrow>
     done_listeners (cancel c w) h ev = done_listeners w h ev + (if h = c then 1 else 0)"
  by (auto simp: done_listeners_def cancel_fields)

lemma cancel_own: "own_done w \<Longrightarrow> own_done (cancel c w)"
  by (auto simp: own_done_def cancel_fields)

lemma fold_cancel:
  assumes "own_done w"
  shows "own_done (fold cancel js w)
     \<and> stillCancellingCount (fold cancel js w) = stillCancellingCount w + int (length js)
     \<and> resolved (fold cancel js w) = resolved w
     \<and> uninstalls (fold cancel js w) = uninstalls w
     \<and> (\<forall>h. done_listeners (fold cancel js w) h ''complete''
              = done_listeners w h ''complete'' + count_list js h)
     \<and> (\<forall>h. done_listeners (fold cancel js w) h ''error''
              = done_listeners w h ''error'' + count_list js h)"
  using assms
proof (induction js arbitrary: w)
  case Nil
  then show ?case by simp
next
  case (Cons j js)
  from Cons.IH[OF cancel_own[OF Cons.prems, of j]]
  show ?case
    by (auto simp: cancel_fields cancel_done)
qed

lemma executor_establishes:
  assumes ex: "stopReplicator_executor w = Some ws"
    and ch: "changes w = Some ch"
    and nodone: "\<forall>h p. p \<in> set (listeners w h) \<longrightarrow> (\<forall>h'. snd p \<noteq> doneCancelling_for h')"
  shows "stop_inv (ch # map snd (activeReplicationsById w)) (uninstalls w) {} ws"
proof -
  let ?w0 = "w\<lparr>stillCancellingCount := 0, resolved := False\<rparr>"
  let ?w2 = "removeAllListeners_of ch ''change'' (cancel ch ?w0)"
  let ?js = "map snd (activeReplicationsById w)"
  have act: "activeReplicationsById ?w2 = activeReplicationsById w"
    by (simp add: removeAllListeners_of_def cancel_fields)
  from ex ch have ws: "ws = fold cancel ?js ?w2"
    by (simp add: stopReplicator_executor_def Let_def act fold_map comp_def)
  have l2: "listeners ?w2 = (listeners w)(ch := filter (\<lambda>p. fst p \<noteq> ''change'') (listeners w ch)
       @ [(''complete'', doneCancelling_for ch), (''error'', doneCancelling_for ch)])"
    by (simp add: removeAllListeners_of_def cancel_fields)
  have no: "filter (\<lambda>p. p = (ev, doneCancelling_for h)) (listeners w h') = []"
    "filter (\<lambda>p. Q p \<and> p = (ev, doneCancelling_for h)) (listeners w h') = []" for ev h h' Q
    using nodone by (force simp: filter_empty_conv)+
  have own2: "own_done ?w2"
    using nodone by (auto simp: own_done_def l2)
  have d2: "done_listeners ?w2 h ev = (if h = ch then 1 else 0)"
    if "ev = ''complete'' \<or> ev = ''error''" for h ev
  proof (cases "h = ch")
    case True
    with that show ?thesis by (auto simp: done_listeners_def l2 no)
  next
    case False
    then show ?thesis by (simp add: done_listeners_def l2 no)
  qed
  have f2: "stillCancellingCount ?w2 = 1" "resolved ?w2 = False" "uninstalls ?w2 = uninstalls w"
    by (simp_all add: removeAllListeners_of_def cancel_fields uninstalls_def cancel_def Let_def on_def call_def)
  from fold_cancel[OF own2, of ?js] d2 f2 ws
  show ?thesis
    by (auto simp: stop_inv_def)
qed

text \<open>
  Claim C5. After the executor of \<^verbatim>\<open>stopReplicator\<close> has run on a registry whose
  subscription exists, and whatever terminal notifications arrive in whatever order and
  number: \<^verbatim>\<open>resolve\<close> has been called if and only if the change feed and every job
  of the registry have notified (a second notification of an emitter finds no listener
  and counts for nothing), and \<^verbatim>\<open>uninstallValidationMethods\<close> has been called once
  if the promise is resolved and not at all before.
\<close>

theorem stop_resolves_when_all_notified:
  assumes ex: "stopReplicator_executor w = Some ws"
    and nodone: "\<forall>h p. p \<in> set (listeners w h) \<longrightarrow> (\<forall>h'. snd p \<noteq> doneCancelling_for h')"
  shows "(resolved (notify_all es ws)
            \<longleftrightarrow> (\<forall>ch. changes w = Some ch \<longrightarrow> ch \<in> fst ` set es)
                \<and> snd ` set (activeReplicationsById w) \<subseteq> fst ` set es)
       \<and> count_list (effects (notify_all es ws)) UninstallValidationMethods
           = count_list (effects w) UninstallValidationMethods
             + (if resolved (notify_all es ws) then 1 else 0)"
proof -
  from ex obtain ch where ch: "changes w = Some ch"
    by (auto simp: stopReplicator_executor_def split: option.splits)
  from notify_all_inv[OF executor_establishes[OF ex ch nodone], of es]
  show ?thesis using ch
    by (auto simp: stop_inv_def uninstalls_def)
qed


theorem stop_resolves_when_all_notified_witness:
  "stopReplicator_executor two_jobs = Some stopping_two
   \<and> \<not> resolved (notify_all [(1, Complete fmempty), (0, Complete fmempty)] stopping_two)
   \<and> resolved (notify_all [(1, Complete fmempty), (0, Complete fmempty), (2, Failure refused)]
         stopping_two)
   \<and> count_list (effects (notify_all
         [(1, Complete fmempty), (0, Complete fmempty), (2, Failure refused)] stopping_two))
         UninstallValidationMethods = 1"
proof -
  have two: "two_jobs = running_quiet\<lparr>
      activeReplicationsById := [(''rep1'', 1), (''rep3'', 2)],
      activeReplicationSignaturesByRepId :=
        [(''u1'', Some (signature_of rep1)), (''u2'', Some (signature_of rep3))],
      changedByReplicator := [''rep3''],
      listeners := (listeners running_quiet)
        (2 := [(''complete'', onReplicationComplete_for ''rep3''),
               (''error'', onReplicationError_for ''rep3'')]),
      next_handle := 3,
      effects := effects running_quiet
        @ [Replicate 2 (Some 7) (Some 2)
             (rep3\<lparr>replication_id := Some ''u2'', replication_state := Some ''triggered''\<rparr>),
           Put (rep3\<lparr>replication_id := Some ''u2'', replication_state := Some ''triggered'',
                      replication_state_time := Some 4\<rparr>) replicator_roles]\<rparr>"
    by (simp add: two_jobs_def rep3_def running_quiet_def running_eq rep1_triggered_eq
        rep1_def idle_def ev array_index_def is_digit_def)
  have ch: "changes two_jobs = Some 0"
    and jobs: "activeReplicationsById two_jobs = [(''rep1'', 1), (''rep3'', 2)]"
    and quiet: "effects two_jobs
      = [Replicate 1 (Some 1) (Some 2)
           (rep1\<lparr>replication_id := Some ''u1'', replication_state := Some ''triggered''\<rparr>),
         Put rep1_triggered replicator_roles,
         Replicate 2 (Some 7) (Some 2)
           (rep3\<lparr>replication_id := Some ''u2'', replication_state := Some ''triggered''\<rparr>),
         Put (rep3\<lparr>replication_id := Some ''u2'', replication_state := Some ''triggered'',
                    replication_state_time := Some 4\<rparr>) replicator_roles]"
    by (simp_all add: two running_quiet_def running_eq idle_def)
  have ex: "stopReplicator_executor two_jobs = Some stopping_two"
    using ch by (simp add: stopping_two_def stopReplicator_executor_def Let_def)
  have nodone: "\<forall>h p. p \<in> set (listeners two_jobs h)
                  \<longrightarrow> (\<forall>h'. snd p \<noteq> doneCancelling_for h')"
    by (auto simp: two running_quiet_def running_eq idle_def split: if_splits)
  from stop_resolves_when_all_notified[OF ex nodone,
      of "[(1, Complete fmempty), (0, Complete fmempty)]"]
  have part: "\<not> resolved (notify_all [(1, Complete fmempty), (0, Complete fmempty)] stopping_two)"
    by (simp add: ch jobs)
  from stop_resolves_when_all_notified[OF ex nodone,
      of "[(1, Complete fmempty), (0, Complete fmempty), (2, Failure refused)]"]
  have all: "resolved (notify_all
        [(1, Complete fmempty), (0, Complete fmempty), (2, Failure refused)] stopping_two)"
    "count_list (effects (notify_all
         [(1, Complete fmempty), (0, Complete fmempty), (2, Failure refused)] stopping_two))
         UninstallValidationMethods = 1"
    by (simp_all add: ch jobs quiet)
  from ex part all show ?thesis by simp
qed

end
